theory Spec2Isabelle
  imports Main "HOL-Library.Word" "HOL-Library.Multiset"
begin

section \<open>objcache: a read-through cache in front of a loader\<close>

text \<open>
  A shallow embedding of \<^verbatim>\<open>objcache/objcache.go\<close>. Mutation is explicit state
  passing: every operation takes the object it mutates and returns it updated. The
  type variable \<open>'u\<close> stands for the part of the program's memory that lies outside the
  package: whatever a Value's \<^verbatim>\<open>Dispose\<close>, a Getter or a creation hook reads and
  writes. An interface value is a record of its methods.

  The locks (\<^verbatim>\<open>sync.RWMutex\<close>) make every method of \<^verbatim>\<open>cache\<close> and every
  registry operation atomic; the model is of calls made one after another. A panic is a
  result of its own; the state in which it leaves the objects is returned with it, since
  the deferred \<^verbatim>\<open>Unlock\<close> calls release the locks and a caller may recover.
\<close>

subsection \<open>Values, errors, getters\<close>

type_synonym key = string

text \<open>A Go \<^verbatim>\<open>error\<close> that is not nil; \<open>None\<close> of \<open>error option\<close> is the nil error.\<close>

datatype error = Error string

text \<open>A Go panic, with its message.\<close>

datatype panic = Panic string

type_synonym int64 = "64 word"

text \<open>
  \<^verbatim>\<open>type Value interface { Dispose() error }\<close> (lines 12--14). The record is an
  object that implements the interface: \<open>ident\<close> tells two objects apart, \<open>Dispose\<close> is
  its method, which returns an error or nil and may write to the memory outside the
  package. A variable of type \<^verbatim>\<open>Value\<close>, or an \<^verbatim>\<open>interface{}\<close> that the cache has
  been given, is a \<open>'u Value option\<close>: \<open>None\<close> is the nil interface value.
\<close>

record 'u Value =
  ident :: nat
  Dispose :: "'u \<Rightarrow> error option \<times> 'u"

text \<open>
  \<^verbatim>\<open>Get(key string) (val Value, err error)\<close> of a Getter (lines 17--20): the pair
  \<^verbatim>\<open>(val, err)\<close>, either of which may be nil, and the outside memory as the call
  leaves it.
\<close>

type_synonym 'u Getter = "key \<Rightarrow> 'u \<Rightarrow> ('u Value option \<times> error option) \<times> 'u"

text \<open>
  The panic of a type assertion \<^verbatim>\<open>x.(Value)\<close> on a nil \<^verbatim>\<open>interface{}\<close> (lines 151
  and 168).
\<close>

definition nil_conversion :: panic where
  "nil_conversion = Panic ''interface conversion: interface {} is nil, not objcache.Value''"

subsection \<open>The Bounded Cache (package lru)\<close>

text \<open>
  The eviction hook is a closure over the cache wrapper that owns the lru; it touches
  the wrapper's \<^verbatim>\<open>nevict\<close> and calls \<^verbatim>\<open>Dispose\<close>, so the state it transforms is
  the pair of that counter and the outside memory. It may panic: \<open>Some p\<close> beside the
  state it has reached.
\<close>

type_synonym 'u evict_state = "int64 \<times> 'u"

type_synonym 'u evict_hook =
  "key \<Rightarrow> 'u Value option \<Rightarrow> 'u evict_state \<Rightarrow> panic option \<times> 'u evict_state"

text \<open>
  Modelled from the spec: the type \<^verbatim>\<open>lru.Cache\<close> of the imported package
  \<^verbatim>\<open>objcache/lru\<close> (line 8), whose source is not part of the file. The spec calls it
  the Bounded Cache: a fixed-capacity key-to-Value store with a maximum entry count and an
  eviction hook. \<open>entries\<close> lists the resident entries, the most recently used first.
\<close>

record 'u lru_Cache =
  MaxEntries :: int
  entries :: "(key \<times> 'u Value option) list"
  OnEvicted :: "'u evict_hook option"

text \<open>
  Modelled from the spec: \<^verbatim>\<open>lru.New\<close>, "constructs the Bounded Cache with the given
  maximum entry count"; it is empty and has no hook yet.
\<close>

definition lru_New :: "int \<Rightarrow> 'u lru_Cache" where
  "lru_New maxEntries = \<lparr>MaxEntries = maxEntries, entries = [], OnEvicted = None\<rparr>"

text \<open>
  Modelled from the spec: the eviction notification, "the hook is invoked synchronously
  with the evicted key and value"; a panic of the hook is passed on.
\<close>

definition lru_notify ::
  "'u lru_Cache \<Rightarrow> key \<times> 'u Value option \<Rightarrow> 'u evict_state \<Rightarrow> panic option \<times> 'u evict_state" where
  "lru_notify l e s =
     (case OnEvicted l of None \<Rightarrow> (None, s) | Some fn \<Rightarrow> fn (fst e) (snd e) s)"

text \<open>
  Modelled from the spec: \<^verbatim>\<open>lru.Cache.Add\<close>. "Whenever the Bounded Cache's own policy
  removes an entry (capacity exceeded, explicit overwrite displacing the old value) the
  hook is invoked": adding under a resident key displaces the old entry, adding a new
  key beyond the maximum entry count removes the least recently used entry. The hook runs
  on an entry that has been removed.
\<close>

definition lru_Add ::
  "'u lru_Cache \<Rightarrow> key \<Rightarrow> 'u Value option \<Rightarrow> 'u evict_state \<Rightarrow>
   'u lru_Cache \<times> panic option \<times> 'u evict_state" where
  "lru_Add l k v s =
     (case map_of (entries l) k of
        Some old \<Rightarrow>
          (l\<lparr>entries := (k, v) # remove1 (k, old) (entries l)\<rparr>, lru_notify l (k, old) s)
      | None \<Rightarrow>
          (let es = (k, v) # entries l in
           if MaxEntries l < int (length es)
           then (l\<lparr>entries := butlast es\<rparr>, lru_notify l (last es) s)
           else (l\<lparr>entries := es\<rparr>, (None, s))))"

text \<open>
  Modelled from the spec: \<^verbatim>\<open>lru.Cache.Get\<close>, "get(key) -> (value, found)"; a hit makes
  the entry the most recently used one and removes nothing. The result is \<open>Some value\<close>
  when found, and the value found may be nil.
\<close>

definition lru_Get :: "'u lru_Cache \<Rightarrow> key \<Rightarrow> 'u lru_Cache \<times> 'u Value option option" where
  "lru_Get l k =
     (case map_of (entries l) k of
        None \<Rightarrow> (l, None)
      | Some v \<Rightarrow> (l\<lparr>entries := (k, v) # remove1 (k, v) (entries l)\<rparr>, Some v))"

text \<open>Modelled from the spec: \<^verbatim>\<open>lru.Cache.Len\<close>, "len() -> int", the resident entry count.\<close>

definition lru_Len :: "'u lru_Cache \<Rightarrow> int" where
  "lru_Len l = int (length (entries l))"

subsection \<open>Counters and statistics\<close>

text \<open>\<^verbatim>\<open>type AtomicInt int64\<close> with \<^verbatim>\<open>Add\<close> and \<^verbatim>\<open>Get\<close> (lines 185--195).\<close>

type_synonym AtomicInt = int64

definition AtomicInt_Add :: "AtomicInt \<Rightarrow> int64 \<Rightarrow> AtomicInt" where
  "AtomicInt_Add i n = i + n"

definition AtomicInt_Get :: "AtomicInt \<Rightarrow> int64" where
  "AtomicInt_Get i = i"

text \<open>\<^verbatim>\<open>type Stats struct\<close> (lines 55--58).\<close>

record Stats =
  Gets :: AtomicInt
  CacheHits :: AtomicInt

text \<open>\<^verbatim>\<open>type CacheStats struct\<close> (lines 202--207).\<close>

record CacheStats =
  Items :: int64
  Gets :: int64
  Hits :: int64
  Evictions :: int64

subsection \<open>The cache wrapper\<close>

text \<open>\<^verbatim>\<open>type cache struct\<close> (lines 130--135); the lock is left out.\<close>

record 'u cache =
  lru :: "'u lru_Cache"
  nhit :: int64
  nget :: int64
  nevict :: int64

text \<open>
  The closure that \<^verbatim>\<open>init\<close> installs (lines 150--153): \<^verbatim>\<open>value.(Value)\<close> panics on
  nil, before anything else is done; otherwise the closure calls the Value's
  \<^verbatim>\<open>Dispose\<close>, drops the error that comes back, and increments \<^verbatim>\<open>nevict\<close>.
\<close>

definition cache_OnEvicted :: "'u evict_hook" where
  "cache_OnEvicted k val s =
     (case val of
        None \<Rightarrow> (Some nil_conversion, s)
      | Some v \<Rightarrow>
          (case s of (n, u) \<Rightarrow> (case Dispose v u of (err, u') \<Rightarrow> (None, (n + 1, u')))))"

text \<open>
  \<^verbatim>\<open>cache.init\<close> (lines 148--154), on the zero-valued struct of a newly allocated
  Group (line 89), whose counters are 0.
\<close>

definition cache_init :: "int \<Rightarrow> 'u cache" where
  "cache_init cacheNum =
     \<lparr>lru = (lru_New cacheNum)\<lparr>OnEvicted := Some cache_OnEvicted\<rparr>,
      nhit = 0, nget = 0, nevict = 0\<rparr>"

text \<open>
  \<^verbatim>\<open>cache.add\<close> (lines 156--160); it has no result, and it panics when the hook does
  (\<open>Some p\<close>).
\<close>

definition cache_add ::
  "'u cache \<Rightarrow> key \<Rightarrow> 'u Value option \<Rightarrow> 'u \<Rightarrow> panic option \<times> 'u cache \<times> 'u" where
  "cache_add c k val u =
     (case lru_Add (lru c) k val (nevict c, u) of
        (l, p, n, u') \<Rightarrow> (p, c\<lparr>lru := l, nevict := n\<rparr>, u'))"

text \<open>
  \<^verbatim>\<open>cache.get\<close> (lines 162--172): \<open>Inr (Some value)\<close> when \<^verbatim>\<open>ok\<close>, \<open>Inr None\<close>
  when not; \<^verbatim>\<open>v.(Value)\<close> (line 168) panics when the value found is nil, after
  \<^verbatim>\<open>nget\<close> has been incremented and before \<^verbatim>\<open>nhit\<close> is.
\<close>

definition cache_get :: "'u cache \<Rightarrow> key \<Rightarrow> (panic + 'u Value option) \<times> 'u cache" where
  "cache_get c k =
     (let c1 = c\<lparr>nget := nget c + 1\<rparr> in
      case lru_Get (lru c1) k of
        (l, Some (Some v)) \<Rightarrow> (Inr (Some v), c1\<lparr>lru := l, nhit := nhit c1 + 1\<rparr>)
      | (l, Some None) \<Rightarrow> (Inl nil_conversion, c1\<lparr>lru := l\<rparr>)
      | (l, None) \<Rightarrow> (Inr None, c1\<lparr>lru := l\<rparr>))"

text \<open>\<^verbatim>\<open>cache.itemsLocked\<close>, \<^verbatim>\<open>cache.items\<close> (lines 174--182).\<close>

definition cache_itemsLocked :: "'u cache \<Rightarrow> int64" where
  "cache_itemsLocked c = word_of_int (lru_Len (lru c))"

definition cache_items :: "'u cache \<Rightarrow> int64" where
  "cache_items c = cache_itemsLocked c"

text \<open>\<^verbatim>\<open>cache.stats\<close> (lines 137--146).\<close>

definition cache_stats :: "'u cache \<Rightarrow> CacheStats" where
  "cache_stats c =
     \<lparr>Items = cache_itemsLocked c, Gets = nget c, Hits = nhit c, Evictions = nevict c\<rparr>"

subsection \<open>Groups\<close>

text \<open>\<^verbatim>\<open>type Group struct\<close> (lines 44--52).\<close>

record 'u Group =
  name :: string
  getter :: "'u Getter"
  mainCache :: "'u cache"
  Stats :: Stats

text \<open>\<^verbatim>\<open>Group.Name\<close> (lines 102--104).\<close>

definition Group_Name :: "'u Group \<Rightarrow> string" where
  "Group_Name g = name g"

text \<open>
  \<^verbatim>\<open>Group.Get\<close> (lines 107--120). The result is the pair \<^verbatim>\<open>(val, err)\<close> or a
  panic, with the group as the call leaves it and the outside memory. Whatever the Getter
  returns with a nil \<^verbatim>\<open>err\<close> is added to the cache (lines 116--118), a nil
  \<^verbatim>\<open>val\<close> too.
\<close>

definition Group_Get ::
  "'u Group \<Rightarrow> key \<Rightarrow> 'u \<Rightarrow> (panic + 'u Value option \<times> error option) \<times> 'u Group \<times> 'u" where
  "Group_Get g k u =
     (let g1 = g\<lparr>Stats := (Stats g)\<lparr>Stats.Gets := AtomicInt_Add (Stats.Gets (Stats g)) 1\<rparr>\<rparr> in
      case cache_get (mainCache g1) k of
        (Inl p, c) \<Rightarrow> (Inl p, g1\<lparr>mainCache := c\<rparr>, u)
      | (Inr (Some v), c) \<Rightarrow>
          (Inr (Some v, None),
           g1\<lparr>mainCache := c,
              Stats := (Stats g1)\<lparr>CacheHits := AtomicInt_Add (CacheHits (Stats g1)) 1\<rparr>\<rparr>,
           u)
      | (Inr None, c) \<Rightarrow>
          (case getter g1 k u of
             ((val, None), u1) \<Rightarrow>
               (case cache_add c k val u1 of
                  (None, c', u2) \<Rightarrow> (Inr (val, None), g1\<lparr>mainCache := c'\<rparr>, u2)
                | (Some p, c', u2) \<Rightarrow> (Inl p, g1\<lparr>mainCache := c'\<rparr>, u2))
           | ((val, Some err), u1) \<Rightarrow> (Inr (val, Some err), g1\<lparr>mainCache := c\<rparr>, u1)))"

text \<open>\<^verbatim>\<open>Group.CacheStats\<close> (lines 123--125).\<close>

definition Group_CacheStats :: "'u Group \<Rightarrow> CacheStats" where
  "Group_CacheStats g = cache_stats (mainCache g)"

text \<open>
  A run of \<^verbatim>\<open>Get\<close> calls on one group, one key after the other, by a caller that
  recovers from a panic and goes on.
\<close>

fun Group_Gets :: "'u Group \<Rightarrow> key list \<Rightarrow> 'u \<Rightarrow> 'u Group \<times> 'u" where
  "Group_Gets g [] u = (g, u)"
| "Group_Gets g (k # ks) u = (case Group_Get g k u of (r, g', u') \<Rightarrow> Group_Gets g' ks u')"

subsection \<open>The registry\<close>

text \<open>
  A creation hook, \<^verbatim>\<open>func(*Group)\<close>. It receives a pointer and so may leave the
  group changed; it runs inside \<^verbatim>\<open>NewGroup\<close>, and the model hands it the registry as
  it stands at the moment of the call.
\<close>

type_synonym 'u group_hook = "(string \<rightharpoonup> 'u Group) \<Rightarrow> 'u Group \<Rightarrow> 'u \<Rightarrow> 'u Group \<times> 'u"

text \<open>The package variables \<^verbatim>\<open>newGroupHook\<close> (line 31) and \<^verbatim>\<open>groups\<close> (line 62).\<close>

record 'u registry =
  newGroupHook :: "'u group_hook option"
  groups :: "string \<rightharpoonup> 'u Group"

text \<open>The package's variables when the process starts.\<close>

definition registry_start :: "'u registry" where
  "registry_start = \<lparr>newGroupHook = None, groups = Map.empty\<rparr>"

text \<open>\<^verbatim>\<open>RegisterNewGroupHook\<close> (lines 35--40); \<open>fn\<close> may be nil.\<close>

definition RegisterNewGroupHook :: "'u group_hook option \<Rightarrow> 'u registry \<Rightarrow> panic + 'u registry" where
  "RegisterNewGroupHook fn r =
     (if newGroupHook r \<noteq> None
      then Inl (Panic ''RegisterNewGroupHook called more than once'')
      else Inr (r\<lparr>newGroupHook := fn\<rparr>))"

text \<open>\<^verbatim>\<open>GetGroup\<close> (lines 67--72); \<open>None\<close> is the nil pointer.\<close>

definition GetGroup :: "string \<Rightarrow> 'u registry \<Rightarrow> 'u Group option" where
  "GetGroup nm r = groups r nm"

text \<open>The group that lines 89--93 of \<^verbatim>\<open>NewGroup\<close> allocate and initialise.\<close>

definition fresh_Group :: "string \<Rightarrow> int \<Rightarrow> 'u Getter \<Rightarrow> 'u Group" where
  "fresh_Group nm cacheNum gt =
     \<lparr>name = nm, getter = gt, mainCache = cache_init cacheNum,
      Stats = \<lparr>Stats.Gets = 0, CacheHits = 0\<rparr>\<rparr>"

text \<open>
  \<^verbatim>\<open>NewGroup\<close> (lines 83--99): the duplicate check, the allocation, the hook (lines
  94--96), then the registration (line 97).
\<close>

definition NewGroup :: "string \<Rightarrow> int \<Rightarrow> 'u Getter \<Rightarrow> 'u registry \<Rightarrow> 'u \<Rightarrow> panic + ('u Group \<times> 'u registry \<times> 'u)" where
  "NewGroup nm cacheNum gt r u =
     (if groups r nm \<noteq> None
      then Inl (Panic (''duplicate registration of group '' @ nm))
      else
        (let g = fresh_Group nm cacheNum gt in
         case (case newGroupHook r of
                 None \<Rightarrow> (g, u)
               | Some fn \<Rightarrow> fn (groups r) g u) of
           (g', u') \<Rightarrow> Inr (g', r\<lparr>groups := (groups r)(nm \<mapsto> g')\<rparr>, u')))"

subsection \<open>The counters of a cache wrapper\<close>

text \<open>
  What the counters of a cache wrapper satisfy as long as only \<^verbatim>\<open>Group.Get\<close> touches
  them: the hook is the one \<^verbatim>\<open>init\<close> installed, and every hit and every eviction
  belongs to a lookup of its own.
\<close>

definition counters_ok :: "'u cache \<Rightarrow> bool" where
  "counters_ok c \<longleftrightarrow>
     OnEvicted (lru c) = Some cache_OnEvicted \<and>
     0 \<le> sint (nhit c) \<and> 0 \<le> sint (nevict c) \<and>
     sint (nhit c) + sint (nevict c) \<le> sint (nget c)"

subsection \<open>Concrete Values, getters and hooks\<close>

text \<open>
  The outside memory of the concrete scenarios: the number of Getter calls made so far
  and the idents of the Values disposed so far, in order.
\<close>

type_synonym probe = "nat \<times> nat list"

text \<open>A Value whose \<^verbatim>\<open>Dispose\<close> records its ident and returns \<open>e\<close>.\<close>

definition probe_Value :: "nat \<Rightarrow> error option \<Rightarrow> probe Value" where
  "probe_Value i e = \<lparr>ident = i, Dispose = (\<lambda>u. (e, (fst u, snd u @ [i])))\<rparr>"

text \<open>
  A Getter that counts its calls, fails with "not found" for the key \<^verbatim>\<open>x\<close> and
  loads a Value named after the key's first character for every other key.
\<close>

definition probe_getter :: "probe Getter" where
  "probe_getter k u =
     (if k = ''x'' then (None, Some (Error ''not found''))
      else (Some (probe_Value (case k of [] \<Rightarrow> 0 | c # cs \<Rightarrow> of_char c) None), None),
      (Suc (fst u), snd u))"

text \<open>A new group of capacity 2, and the same group after \<^verbatim>\<open>Get("a")\<close>.\<close>

definition probe_Group :: "probe Group" where
  "probe_Group = fresh_Group ''g'' 2 probe_getter"

definition probe_Group_a :: "probe Group" where
  "probe_Group_a = fst (snd (Group_Get probe_Group ''a'' (0, [])))"

text \<open>
  A Getter that counts its calls and returns \<^verbatim>\<open>(nil, nil)\<close> for the key \<^verbatim>\<open>n\<close>,
  a Value for every other key; a new group of capacity 1 over it, and the same group after
  \<^verbatim>\<open>Get("n")\<close>.
\<close>

definition nil_getter :: "probe Getter" where
  "nil_getter k u =
     (if k = ''n'' then (None, None)
      else (Some (probe_Value (case k of [] \<Rightarrow> 0 | c # cs \<Rightarrow> of_char c) None), None),
      (Suc (fst u), snd u))"

definition nil_Group :: "probe Group" where
  "nil_Group = fresh_Group ''g'' 1 nil_getter"

definition nil_Group_n :: "probe Group" where
  "nil_Group_n = fst (snd (Group_Get nil_Group ''n'' (0, [])))"

text \<open>
  A Getter whose Values all fail to dispose, a new group of capacity 1 over it, and the
  same group after \<^verbatim>\<open>Get("a")\<close>, which fills it.
\<close>

definition busy_getter :: "probe Getter" where
  "busy_getter k u =
     ((Some (probe_Value (case k of [] \<Rightarrow> 0 | c # cs \<Rightarrow> of_char c)
               (Some (Error ''dispose failed''))), None),
      (Suc (fst u), snd u))"

definition busy_Group :: "probe Group" where
  "busy_Group = fresh_Group ''g'' 1 busy_getter"

definition busy_Group_a :: "probe Group" where
  "busy_Group_a = fst (snd (Group_Get busy_Group ''a'' (0, [])))"

text \<open>A Getter that finds nothing and leaves the outside memory alone.\<close>

definition absent_getter :: "'u Getter" where
  "absent_getter k u = ((None, Some (Error ''not found'')), u)"

text \<open>
  A creation hook that notes, at each of its calls, whether the registry it runs against
  holds a group under the name of the group it is given. The outside memory is the list
  of these notes.
\<close>

definition seen_hook :: "bool list group_hook" where
  "seen_hook reg g u = (g, u @ [reg (name g) \<noteq> None])"

text \<open>A registry with that hook installed: one without groups, one with a group \<^verbatim>\<open>z\<close>.\<close>

definition hooked_registry :: "bool list registry" where
  "hooked_registry = \<lparr>newGroupHook = Some seen_hook, groups = Map.empty\<rparr>"

definition busy_registry :: "bool list registry" where
  "busy_registry =
     \<lparr>newGroupHook = Some seen_hook, groups = [''z'' \<mapsto> fresh_Group ''z'' 1 absent_getter]\<rparr>"

section \<open>Properties\<close>

subsection \<open>Lookups in the Bounded Cache\<close>

lemma lru_Get_miss: "map_of (entries l) k = None \<Longrightarrow> lru_Get l k = (l, None)"
  by (simp add: lru_Get_def)

lemma lru_Get_hit:
  "map_of (entries l) k = Some x \<Longrightarrow>
   lru_Get l k = (l\<lparr>entries := (k, x) # remove1 (k, x) (entries l)\<rparr>, Some x)"
  by (simp add: lru_Get_def)

lemma map_of_remove1_other:
  "k' \<noteq> k \<Longrightarrow> map_of (remove1 (k, x) es) k' = map_of es k'"
  by (induction es) auto

lemma map_of_move_front:
  "map_of es k = Some x \<Longrightarrow> map_of ((k, x) # remove1 (k, x) es) = map_of es"
  by (rule ext) (simp add: map_of_remove1_other)

subsection \<open>The cache wrapper, case by case\<close>

lemma cache_get_miss:
  "map_of (entries (lru c)) k = None \<Longrightarrow> cache_get c k = (Inr None, c\<lparr>nget := nget c + 1\<rparr>)"
  by (simp add: cache_get_def lru_Get_miss)

lemma cache_get_hit:
  "map_of (entries (lru c)) k = Some (Some v) \<Longrightarrow>
   cache_get c k =
     (Inr (Some v),
      c\<lparr>lru := (lru c)\<lparr>entries := (k, Some v) # remove1 (k, Some v) (entries (lru c))\<rparr>,
        nget := nget c + 1, nhit := nhit c + 1\<rparr>)"
  by (simp add: cache_get_def lru_Get_hit)

text \<open>A lookup that finds a nil value panics; it has been counted as a get, not as a hit.\<close>

lemma cache_get_nil:
  "map_of (entries (lru c)) k = Some None \<Longrightarrow>
   cache_get c k =
     (Inl nil_conversion,
      c\<lparr>lru := (lru c)\<lparr>entries := (k, None) # remove1 (k, None) (entries (lru c))\<rparr>,
        nget := nget c + 1\<rparr>)"
  by (simp add: cache_get_def lru_Get_hit)

lemma cache_get_Some_iff:
  "fst (cache_get c k) = Inr (Some v) \<longleftrightarrow> map_of (entries (lru c)) k = Some (Some v)"
proof (cases "map_of (entries (lru c)) k")
  case None
  then show ?thesis by (simp add: cache_get_miss)
next
  case (Some x)
  then show ?thesis by (cases x) (simp_all add: cache_get_nil cache_get_hit)
qed

lemma cache_OnEvicted_eq:
  "cache_OnEvicted k (Some v) (n, u) = (None, (n + 1, snd (Dispose v u)))"
  by (simp add: cache_OnEvicted_def split: prod.splits)

lemma cache_OnEvicted_nil: "cache_OnEvicted k None s = (Some nil_conversion, s)"
  by (simp add: cache_OnEvicted_def)

lemma cache_add_new_fits:
  assumes "map_of (entries (lru c)) k = None"
    and "int (length (entries (lru c))) < MaxEntries (lru c)"
  shows "cache_add c k val u =
           (None, c\<lparr>lru := (lru c)\<lparr>entries := (k, val) # entries (lru c)\<rparr>\<rparr>, u)"
  using assms by (simp add: cache_add_def lru_Add_def Let_def)

lemma cache_add_new_full:
  assumes "map_of (entries (lru c)) k = None"
    and "MaxEntries (lru c) \<le> int (length (entries (lru c)))"
    and "OnEvicted (lru c) = Some cache_OnEvicted"
    and "last ((k, val) # entries (lru c)) = (ko, Some old)"
  shows "cache_add c k val u =
           (None,
            c\<lparr>lru := (lru c)\<lparr>entries := butlast ((k, val) # entries (lru c))\<rparr>,
              nevict := nevict c + 1\<rparr>,
            snd (Dispose old u))"
  using assms
  by (simp add: cache_add_def lru_Add_def Let_def lru_notify_def cache_OnEvicted_eq
           del: butlast.simps last.simps)

text \<open>
  When the entry that has to go holds nil, the hook panics: the entry is gone, nothing is
  disposed and the eviction is not counted.
\<close>

lemma cache_add_new_full_nil:
  assumes "map_of (entries (lru c)) k = None"
    and "MaxEntries (lru c) \<le> int (length (entries (lru c)))"
    and "OnEvicted (lru c) = Some cache_OnEvicted"
    and "last ((k, val) # entries (lru c)) = (ko, None)"
  shows "cache_add c k val u =
           (Some nil_conversion,
            c\<lparr>lru := (lru c)\<lparr>entries := butlast ((k, val) # entries (lru c))\<rparr>\<rparr>,
            u)"
  using assms
  by (simp add: cache_add_def lru_Add_def Let_def lru_notify_def cache_OnEvicted_nil
           del: butlast.simps last.simps)

lemma cache_add_keeps:
  "nget (fst (snd (cache_add c k val u))) = nget c \<and>
   nhit (fst (snd (cache_add c k val u))) = nhit c"
  by (simp add: cache_add_def split: prod.splits)

subsection \<open>Group.Get, case by case\<close>

lemma Group_Get_hit:
  assumes resident: "map_of (entries (lru (mainCache g))) k = Some (Some v)"
  shows "Group_Get g k u =
           (Inr (Some v, None),
            g\<lparr>mainCache := (mainCache g)
                 \<lparr>lru := (lru (mainCache g))
                     \<lparr>entries := (k, Some v) # remove1 (k, Some v) (entries (lru (mainCache g)))\<rparr>,
                  nget := nget (mainCache g) + 1, nhit := nhit (mainCache g) + 1\<rparr>,
              Stats := \<lparr>Stats.Gets = Stats.Gets (Stats g) + 1,
                        CacheHits = CacheHits (Stats g) + 1\<rparr>\<rparr>,
            u)"
  using resident by (simp add: Group_Get_def cache_get_hit AtomicInt_Add_def)

lemma Group_Get_hit_nil:
  assumes resident: "map_of (entries (lru (mainCache g))) k = Some None"
  shows "Group_Get g k u =
           (Inl nil_conversion,
            g\<lparr>mainCache := (mainCache g)
                 \<lparr>lru := (lru (mainCache g))
                     \<lparr>entries := (k, None) # remove1 (k, None) (entries (lru (mainCache g)))\<rparr>,
                  nget := nget (mainCache g) + 1\<rparr>,
              Stats := (Stats g)\<lparr>Stats.Gets := Stats.Gets (Stats g) + 1\<rparr>\<rparr>,
            u)"
  using resident by (simp add: Group_Get_def cache_get_nil AtomicInt_Add_def)

lemma Group_Get_miss_failed:
  assumes absent: "map_of (entries (lru (mainCache g))) k = None"
    and fails: "getter g k u = ((val, Some err), u1)"
  shows "Group_Get g k u =
           (Inr (val, Some err),
            g\<lparr>mainCache := (mainCache g)\<lparr>nget := nget (mainCache g) + 1\<rparr>,
              Stats := (Stats g)\<lparr>Stats.Gets := Stats.Gets (Stats g) + 1\<rparr>\<rparr>,
            u1)"
  using assms by (simp add: Group_Get_def cache_get_miss AtomicInt_Add_def)

lemma Group_Get_miss_loaded:
  assumes absent: "map_of (entries (lru (mainCache g))) k = None"
    and loads: "getter g k u = ((val, None), u1)"
    and add: "cache_add ((mainCache g)\<lparr>nget := nget (mainCache g) + 1\<rparr>) k val u1 = (p, c', u2)"
  shows "Group_Get g k u =
           ((case p of None \<Rightarrow> Inr (val, None) | Some q \<Rightarrow> Inl q),
            g\<lparr>mainCache := c',
              Stats := (Stats g)\<lparr>Stats.Gets := Stats.Gets (Stats g) + 1\<rparr>\<rparr>,
            u2)"
  using assms
  by (simp add: Group_Get_def cache_get_miss AtomicInt_Add_def split: option.splits)

subsection \<open>Counters over runs of Get calls\<close>

text \<open>An \<^verbatim>\<open>int64\<close> below its maximum is incremented without wrapping around.\<close>

lemma sint_succ:
  fixes x :: int64
  assumes "sint x < 2 ^ 63 - 1"
  shows "sint (x + 1) = sint x + 1"
proof -
  have "- (2 ^ 63) \<le> sint x" using sint_ge [of x] by simp
  with assms show ?thesis
    by (simp add: sint_word_ariths signed_take_bit_int_eq_self)
qed

lemma counters_ok_fresh: "counters_ok (mainCache (fresh_Group nm cacheNum gt))"
  by (simp add: counters_ok_def fresh_Group_def cache_init_def)

lemma Get_counters:
  assumes ok: "counters_ok (mainCache g)"
    and room: "sint (nget (mainCache g)) < 2 ^ 63 - 1"
  shows "counters_ok (mainCache (fst (snd (Group_Get g k u)))) \<and>
         sint (nget (mainCache (fst (snd (Group_Get g k u))))) = sint (nget (mainCache g)) + 1 \<and>
         sint (nhit (mainCache g)) \<le> sint (nhit (mainCache (fst (snd (Group_Get g k u))))) \<and>
         sint (nevict (mainCache g)) \<le> sint (nevict (mainCache (fst (snd (Group_Get g k u)))))"
proof -
  let ?c = "mainCache g"
  have hooked: "OnEvicted (lru ?c) = Some cache_OnEvicted"
    and b: "0 \<le> sint (nhit ?c)" "0 \<le> sint (nevict ?c)"
      "sint (nhit ?c) + sint (nevict ?c) \<le> sint (nget ?c)"
    using ok by (simp_all add: counters_ok_def)
  have g1: "sint (nget ?c + 1) = sint (nget ?c) + 1"
    using room by (rule sint_succ)
  have h1: "sint (nhit ?c + 1) = sint (nhit ?c) + 1"
    using room b by (intro sint_succ) linarith
  have e1: "sint (nevict ?c + 1) = sint (nevict ?c) + 1"
    using room b by (intro sint_succ) linarith
  show ?thesis
  proof (cases "map_of (entries (lru ?c)) k")
    case (Some x)
    show ?thesis
    proof (cases x)
      case None
      show ?thesis
        unfolding Group_Get_hit_nil [OF Some [unfolded None]]
        using hooked b g1 by (simp add: counters_ok_def)
    next
      case (Some v)
      show ?thesis
        unfolding Group_Get_hit [OF \<open>map_of (entries (lru ?c)) k = Some x\<close> [unfolded Some]]
        using hooked b g1 h1 by (simp add: counters_ok_def)
    qed
  next
    case None
    obtain val err u1 where gt: "getter g k u = ((val, err), u1)"
      by (cases "getter g k u") auto
    show ?thesis
    proof (cases err)
      case (Some e)
      show ?thesis
        unfolding Group_Get_miss_failed [OF None gt [unfolded Some]]
        using hooked b g1 by (simp add: counters_ok_def)
    next
      case noerr: None
      let ?c1 = "?c\<lparr>nget := nget ?c + 1\<rparr>"
      have absent1: "map_of (entries (lru ?c1)) k = None" using None by simp
      have hooked1: "OnEvicted (lru ?c1) = Some cache_OnEvicted" using hooked by simp
      show ?thesis
      proof (cases "int (length (entries (lru ?c1))) < MaxEntries (lru ?c1)")
        case True
        show ?thesis
          unfolding Group_Get_miss_loaded [OF None gt [unfolded noerr]
              cache_add_new_fits [OF absent1 True]]
          using hooked b g1 by (simp add: counters_ok_def)
      next
        case False
        then have full: "MaxEntries (lru ?c1) \<le> int (length (entries (lru ?c1)))" by simp
        obtain ko x where victim: "last ((k, val) # entries (lru ?c1)) = (ko, x)"
          by (cases "last ((k, val) # entries (lru ?c1))")
        show ?thesis
        proof (cases x)
          case None
          show ?thesis
            unfolding Group_Get_miss_loaded [OF \<open>map_of (entries (lru ?c)) k = None\<close>
                gt [unfolded noerr]
                cache_add_new_full_nil [OF absent1 full hooked1 victim [unfolded None]]]
            using hooked b g1 by (simp add: counters_ok_def)
        next
          case (Some old)
          show ?thesis
            unfolding Group_Get_miss_loaded [OF None gt [unfolded noerr]
                cache_add_new_full [OF absent1 full hooked1 victim [unfolded Some]]]
            using hooked b g1 e1 by (simp add: counters_ok_def)
        qed
      qed
    qed
  qed
qed

lemma Gets_counters:
  assumes "counters_ok (mainCache g)"
    and "sint (nget (mainCache g)) + int (length ks) < 2 ^ 63"
  shows "counters_ok (mainCache (fst (Group_Gets g ks u))) \<and>
         sint (nget (mainCache (fst (Group_Gets g ks u)))) =
           sint (nget (mainCache g)) + int (length ks) \<and>
         sint (nhit (mainCache g)) \<le> sint (nhit (mainCache (fst (Group_Gets g ks u)))) \<and>
         sint (nevict (mainCache g)) \<le> sint (nevict (mainCache (fst (Group_Gets g ks u))))"
  using assms
proof (induction ks arbitrary: g u)
  case Nil
  then show ?case by simp
next
  case (Cons k ks)
  obtain r g' u' where step: "Group_Get g k u = (r, g', u')"
    by (cases "Group_Get g k u") auto
  have room: "sint (nget (mainCache g)) < 2 ^ 63 - 1"
    using Cons.prems(2) by simp
  from Get_counters [OF Cons.prems(1) room, of k u] step
  have ok': "counters_ok (mainCache g')"
    and n': "sint (nget (mainCache g')) = sint (nget (mainCache g)) + 1"
    and m': "sint (nhit (mainCache g)) \<le> sint (nhit (mainCache g'))"
      "sint (nevict (mainCache g)) \<le> sint (nevict (mainCache g'))"
    by simp_all
  have room': "sint (nget (mainCache g')) + int (length ks) < 2 ^ 63"
    using Cons.prems(2) n' by simp
  from Cons.IH [OF ok' room', of u'] step n' m' show ?case
    by simp
qed

text \<open>
  Whatever a \<^verbatim>\<open>Get\<close> does, panic included, it counts the call on both paths and a
  hit on both or on neither.
\<close>

lemma Get_parity_nget:
  "nget (mainCache (fst (snd (Group_Get g k u)))) = nget (mainCache g) + 1 \<and>
   Stats.Gets (Stats (fst (snd (Group_Get g k u)))) = Stats.Gets (Stats g) + 1 \<and>
   nhit (mainCache (fst (snd (Group_Get g k u)))) - nhit (mainCache g) =
     CacheHits (Stats (fst (snd (Group_Get g k u)))) - CacheHits (Stats g)"
proof (cases "map_of (entries (lru (mainCache g))) k")
  case (Some x)
  show ?thesis
  proof (cases x)
    case None
    show ?thesis unfolding Group_Get_hit_nil [OF Some [unfolded None]] by simp
  next
    case (Some v)
    show ?thesis
      unfolding Group_Get_hit [OF \<open>map_of (entries (lru (mainCache g))) k = Some x\<close> [unfolded Some]]
      by simp
  qed
next
  case None
  obtain val err u1 where gt: "getter g k u = ((val, err), u1)"
    by (cases "getter g k u") auto
  show ?thesis
  proof (cases err)
    case (Some e)
    show ?thesis
      unfolding Group_Get_miss_failed [OF None gt [unfolded Some]] by simp
  next
    case noerr: None
    let ?c1 = "(mainCache g)\<lparr>nget := nget (mainCache g) + 1\<rparr>"
    obtain p c' u2 where add: "cache_add ?c1 k val u1 = (p, c', u2)"
      by (cases "cache_add ?c1 k val u1")
    from cache_add_keeps [of ?c1 k val u1] add
    have keep: "nget c' = nget (mainCache g) + 1" "nhit c' = nhit (mainCache g)"
      by simp_all
    show ?thesis
      unfolding Group_Get_miss_loaded [OF None gt [unfolded noerr] add]
      using keep by simp
  qed
qed

lemma Gets_parity:
  assumes "Stats.Gets (Stats g) = nget (mainCache g)"
    and "CacheHits (Stats g) = nhit (mainCache g)"
  shows "Stats.Gets (Stats (fst (Group_Gets g ks u))) = nget (mainCache (fst (Group_Gets g ks u))) \<and>
         CacheHits (Stats (fst (Group_Gets g ks u))) = nhit (mainCache (fst (Group_Gets g ks u)))"
  using assms
proof (induction ks arbitrary: g u)
  case Nil
  then show ?case by simp
next
  case (Cons k ks)
  obtain r g' u' where step: "Group_Get g k u = (r, g', u')"
    by (cases "Group_Get g k u") auto
  from Get_parity_nget [of g k u] step Cons.prems
  have "Stats.Gets (Stats g') = nget (mainCache g')" "CacheHits (Stats g') = nhit (mainCache g')"
    by simp_all
  from Cons.IH [OF this, of u'] step show ?case by simp
qed

lemma Gets_nget:
  "nget (mainCache (fst (Group_Gets g ks u))) = nget (mainCache g) + word_of_nat (length ks)"
proof (induction ks arbitrary: g u)
  case Nil
  then show ?case by simp
next
  case (Cons k ks)
  obtain r g' u' where step: "Group_Get g k u = (r, g', u')"
    by (cases "Group_Get g k u") auto
  from Get_parity_nget [of g k u] step have "nget (mainCache g') = nget (mainCache g) + 1"
    by simp
  with Cons.IH [of g' u'] step show ?case by simp
qed

subsection \<open>The registry, case by case\<close>

lemma NewGroup_unused:
  assumes "groups r nm = None"
  shows "NewGroup nm cacheNum gt r u =
           (case (case newGroupHook r of
                    None \<Rightarrow> (fresh_Group nm cacheNum gt, u)
                  | Some fn \<Rightarrow> fn (groups r) (fresh_Group nm cacheNum gt) u) of
              (g', u') \<Rightarrow> Inr (g', r\<lparr>groups := (groups r)(nm \<mapsto> g')\<rparr>, u'))"
  using assms by (simp add: NewGroup_def Let_def)

lemma NewGroup_succeeds:
  assumes "groups r nm = None"
  obtains g' u' where
    "NewGroup nm cacheNum gt r u = Inr (g', r\<lparr>groups := (groups r)(nm \<mapsto> g')\<rparr>, u')"
proof -
  obtain g' u' where
    "(case newGroupHook r of
        None \<Rightarrow> (fresh_Group nm cacheNum gt, u)
      | Some fn \<Rightarrow> fn (groups r) (fresh_Group nm cacheNum gt) u) = (g', u')"
    by (rule prod.exhaust)
  then have "NewGroup nm cacheNum gt r u = Inr (g', r\<lparr>groups := (groups r)(nm \<mapsto> g')\<rparr>, u')"
    using assms by (simp add: NewGroup_unused)
  then show thesis by (rule that)
qed

lemma NewGroup_duplicate:
  assumes "groups r nm \<noteq> None"
  shows "NewGroup nm cacheNum gt r u = Inl (Panic (''duplicate registration of group '' @ nm))"
  using assms by (simp add: NewGroup_def)

subsection \<open>The concrete scenarios, evaluated\<close>

lemmas probe_defs = probe_Group_def probe_Group_a_def probe_getter_def probe_Value_def
  fresh_Group_def cache_init_def lru_New_def

lemmas Get_defs = Group_Get_def cache_get_def lru_Get_def cache_add_def lru_Add_def
  lru_notify_def cache_OnEvicted_def AtomicInt_Add_def

lemma probe_Group_a_eq:
  "probe_Group_a =
     probe_Group\<lparr>mainCache := (mainCache probe_Group)
                    \<lparr>lru := (lru (mainCache probe_Group))
                        \<lparr>entries := [(''a'', Some (probe_Value 97 None))]\<rparr>,
                     nget := 1\<rparr>,
                 Stats := \<lparr>Stats.Gets = 1, CacheHits = 0\<rparr>\<rparr>"
  by (simp add: probe_defs Get_defs)

lemma busy_Group_a_eq:
  "busy_Group_a =
     busy_Group\<lparr>mainCache := (mainCache busy_Group)
                    \<lparr>lru := (lru (mainCache busy_Group))
                        \<lparr>entries := [(''a'', Some (probe_Value 97 (Some (Error ''dispose failed''))))]\<rparr>,
                     nget := 1\<rparr>,
                 Stats := \<lparr>Stats.Gets = 1, CacheHits = 0\<rparr>\<rparr>"
  by (simp add: busy_Group_a_def busy_Group_def busy_getter_def fresh_Group_def cache_init_def
      lru_New_def Get_defs)

lemma nil_Group_n_eq:
  "nil_Group_n =
     nil_Group\<lparr>mainCache := (mainCache nil_Group)
                    \<lparr>lru := (lru (mainCache nil_Group))\<lparr>entries := [(''n'', None)]\<rparr>,
                     nget := 1\<rparr>,
                 Stats := \<lparr>Stats.Gets = 1, CacheHits = 0\<rparr>\<rparr>"
  by (simp add: nil_Group_n_def nil_Group_def nil_getter_def fresh_Group_def cache_init_def
      lru_New_def Get_defs)

section \<open>The claims\<close>

text \<open>
  C1 fails on the code when the evicted entry holds a nil Value. The group of capacity 1
  holds the entry \<^verbatim>\<open>n\<close> with the nil Value that its Getter returned with a nil error.
  Adding the Value of \<^verbatim>\<open>a\<close> evicts that entry: the hook panics at \<^verbatim>\<open>value.(Value)\<close>,
  so \<^verbatim>\<open>add\<close> panics, nothing is disposed (the outside memory is as before) and the
  evictions counter stays at 0, although two distinct keys went into a cache of capacity 1
  and one entry is resident.
\<close>

theorem evicted_nil_not_counted:
  "OnEvicted (lru (mainCache nil_Group_n)) = Some cache_OnEvicted \<and>
   MaxEntries (lru (mainCache nil_Group_n)) = 1 \<and>
   entries (lru (mainCache nil_Group_n)) = [(''n'', None)] \<and>
   cache_OnEvicted ''n'' None (0, (1, [])) = (Some nil_conversion, (0, (1, []))) \<and>
   cache_add (mainCache nil_Group_n) ''a'' (Some (probe_Value 97 None)) (1, []) =
     (Some nil_conversion,
      (mainCache nil_Group_n)
        \<lparr>lru := (lru (mainCache nil_Group_n))\<lparr>entries := [(''a'', Some (probe_Value 97 None))]\<rparr>\<rparr>,
      (1, [])) \<and>
   Evictions (cache_stats (fst (snd
     (cache_add (mainCache nil_Group_n) ''a'' (Some (probe_Value 97 None)) (1, []))))) = 0"
  by (simp add: nil_Group_n_eq nil_Group_def fresh_Group_def cache_init_def lru_New_def
      cache_add_def lru_Add_def lru_notify_def cache_OnEvicted_def cache_stats_def)

text \<open>
  C2. When the cache has no entry for \<open>k\<close> and the Getter fails for \<open>k\<close>,
  \<^verbatim>\<open>Group.Get\<close> returns the Getter's error (and the Getter's \<^verbatim>\<open>val\<close>) as they are,
  leaves the Bounded Cache as it was, so that there is still no entry for \<open>k\<close>, increments
  both gets counters and leaves both hits counters alone.
\<close>

theorem Get_load_failure_propagated:
  assumes absent: "map_of (entries (lru (mainCache g))) k = None"
    and fails: "getter g k u = ((val, Some err), u1)"
  shows "case Group_Get g k u of
           (res, g', u') \<Rightarrow>
             res = Inr (val, Some err) \<and> u' = u1 \<and>
             lru (mainCache g') = lru (mainCache g) \<and>
             map_of (entries (lru (mainCache g'))) k = None \<and>
             Items (Group_CacheStats g') = Items (Group_CacheStats g) \<and>
             Evictions (Group_CacheStats g') = Evictions (Group_CacheStats g) \<and>
             Gets (Group_CacheStats g') = Gets (Group_CacheStats g) + 1 \<and>
             Hits (Group_CacheStats g') = Hits (Group_CacheStats g) \<and>
             Stats.Gets (Stats g') = Stats.Gets (Stats g) + 1 \<and>
             CacheHits (Stats g') = CacheHits (Stats g)"
  using absent
  by (simp add: Group_Get_miss_failed [OF absent fails] Group_CacheStats_def cache_stats_def
      cache_itemsLocked_def)

text \<open>
  C2 on a new group whose Getter answers "not found" for the key \<^verbatim>\<open>x\<close>: the error
  comes back, gets is 1 and hits is 0.
\<close>

theorem Get_load_failure_propagated_witness:
  "map_of (entries (lru (mainCache probe_Group))) ''x'' = None \<and>
   getter probe_Group ''x'' (0, []) = ((None, Some (Error ''not found'')), (1, [])) \<and>
   fst (Group_Get probe_Group ''x'' (0, [])) = Inr (None, Some (Error ''not found'')) \<and>
   Gets (Group_CacheStats (fst (snd (Group_Get probe_Group ''x'' (0, []))))) = 1 \<and>
   Hits (Group_CacheStats (fst (snd (Group_Get probe_Group ''x'' (0, []))))) = 0"
proof -
  have absent: "map_of (entries (lru (mainCache probe_Group))) ''x'' = None"
    by (simp add: probe_defs)
  have fails: "getter probe_Group ''x'' (0, []) = ((None, Some (Error ''not found'')), (1, []))"
    by (simp add: probe_defs)
  have zero: "Gets (Group_CacheStats probe_Group) = 0" "Hits (Group_CacheStats probe_Group) = 0"
    by (simp_all add: probe_defs Group_CacheStats_def cache_stats_def)
  from Get_load_failure_propagated [OF absent fails] absent fails zero show ?thesis
    by (auto split: prod.splits)
qed

text \<open>
  C3 fails on the code when the insertion evicts an entry that holds a nil Value. In the
  group of capacity 1 that holds \<^verbatim>\<open>n\<close> with a nil Value there is no entry for
  \<^verbatim>\<open>a\<close> and the Getter succeeds for \<^verbatim>\<open>a\<close> with a Value, yet \<^verbatim>\<open>Get("a")\<close> does
  not return that Value with a nil error: it panics in the eviction hook, after the Value
  has been inserted.
\<close>

theorem Get_evicting_nil_panics:
  "map_of (entries (lru (mainCache nil_Group_n))) ''a'' = None \<and>
   getter nil_Group_n ''a'' (1, []) = ((Some (probe_Value 97 None), None), (2, [])) \<and>
   fst (Group_Get nil_Group_n ''a'' (1, [])) = Inl nil_conversion \<and>
   fst (Group_Get nil_Group_n ''a'' (1, [])) \<noteq> Inr (Some (probe_Value 97 None), None) \<and>
   entries (lru (mainCache (fst (snd (Group_Get nil_Group_n ''a'' (1, [])))))) =
     [(''a'', Some (probe_Value 97 None))]"
  by (simp add: nil_Group_n_eq nil_Group_def nil_getter_def fresh_Group_def cache_init_def
      lru_New_def Get_defs)

text \<open>
  C4 fails on the code for a key loaded with a nil Value. The Getter returns
  \<^verbatim>\<open>(nil, nil)\<close> for \<^verbatim>\<open>n\<close>; the first \<^verbatim>\<open>Get("n")\<close> takes that for a successful
  load, returns \<^verbatim>\<open>(nil, nil)\<close> and leaves \<^verbatim>\<open>n\<close> resident; the second
  \<^verbatim>\<open>Get("n")\<close> finds it and panics at \<^verbatim>\<open>v.(Value)\<close> instead of returning the same
  value, and neither hits counter is incremented.
\<close>

theorem Get_cached_nil_panics:
  "Group_Get nil_Group ''n'' (0, []) = (Inr (None, None), nil_Group_n, (1, [])) \<and>
   map_of (entries (lru (mainCache nil_Group_n))) ''n'' = Some None \<and>
   fst (Group_Get nil_Group_n ''n'' (1, [])) = Inl nil_conversion \<and>
   Gets (Group_CacheStats (fst (snd (Group_Get nil_Group_n ''n'' (1, []))))) = 2 \<and>
   Hits (Group_CacheStats (fst (snd (Group_Get nil_Group_n ''n'' (1, []))))) = 0 \<and>
   CacheHits (Stats (fst (snd (Group_Get nil_Group_n ''n'' (1, []))))) = 0"
proof -
  have first: "Group_Get nil_Group ''n'' (0, []) = (Inr (None, None), nil_Group_n, (1, []))"
    unfolding nil_Group_n_eq
    by (simp add: nil_Group_def nil_getter_def fresh_Group_def cache_init_def lru_New_def Get_defs)
  have resident: "map_of (entries (lru (mainCache nil_Group_n))) ''n'' = Some None"
    by (simp add: nil_Group_n_eq)
  show ?thesis
    using first resident
    by (simp add: Group_Get_hit_nil [OF resident] Group_CacheStats_def cache_stats_def)
       (simp add: nil_Group_n_eq nil_Group_def fresh_Group_def cache_init_def)
qed

text \<open>
  C10. A \<^verbatim>\<open>Group.Get\<close> whose lookup hits changes the counters and nothing else that
  can be observed: the resident keys and their Values, the multiset of resident entries
  and their number are the same, the evictions counter has not moved, no \<^verbatim>\<open>Dispose\<close>
  (and no Getter) ran, since the outside memory is as before, and the group's name and
  getter are the same. (Within the Bounded Cache the entry hit becomes the most recently
  used one.)
\<close>

theorem Get_hit_frame:
  assumes hit: "fst (cache_get (mainCache g) k) = Inr (Some v)"
  shows "case Group_Get g k u of
           (r, g', u') \<Rightarrow>
             map_of (entries (lru (mainCache g'))) = map_of (entries (lru (mainCache g))) \<and>
             mset (entries (lru (mainCache g'))) = mset (entries (lru (mainCache g))) \<and>
             MaxEntries (lru (mainCache g')) = MaxEntries (lru (mainCache g)) \<and>
             Items (Group_CacheStats g') = Items (Group_CacheStats g) \<and>
             Evictions (Group_CacheStats g') = Evictions (Group_CacheStats g) \<and>
             u' = u \<and>
             name g' = name g \<and> getter g' = getter g"
proof -
  have resident: "map_of (entries (lru (mainCache g))) k = Some (Some v)"
    using hit by (simp add: cache_get_Some_iff)
  then have mem: "(k, Some v) \<in> set (entries (lru (mainCache g)))"
    by (rule map_of_SomeD)
  then have len: "length (remove1 (k, Some v) (entries (lru (mainCache g)))) =
      length (entries (lru (mainCache g))) - 1"
    by (simp add: length_remove1)
  have pos: "0 < length (entries (lru (mainCache g)))"
    using mem by (cases "entries (lru (mainCache g))") auto
  show ?thesis
    unfolding Group_Get_hit [OF resident]
    using map_of_move_front [OF resident] mem len pos
    by (simp add: Group_CacheStats_def cache_stats_def cache_itemsLocked_def lru_Len_def)
qed

text \<open>C10 on the second of the two calls \<^verbatim>\<open>Get("a")\<close>, \<^verbatim>\<open>Get("a")\<close>.\<close>

theorem Get_hit_frame_witness:
  "fst (cache_get (mainCache probe_Group_a) ''a'') = Inr (Some (probe_Value 97 None)) \<and>
   map_of (entries (lru (mainCache (fst (snd (Group_Get probe_Group_a ''a'' (1, []))))))) =
     map_of (entries (lru (mainCache probe_Group_a))) \<and>
   Evictions (Group_CacheStats (fst (snd (Group_Get probe_Group_a ''a'' (1, []))))) = 0 \<and>
   snd (snd (Group_Get probe_Group_a ''a'' (1, []))) = (1, [])"
proof -
  have hit: "fst (cache_get (mainCache probe_Group_a) ''a'') = Inr (Some (probe_Value 97 None))"
    by (simp add: probe_Group_a_eq cache_get_def lru_Get_def)
  have zero: "Evictions (Group_CacheStats probe_Group_a) = 0"
    by (simp add: probe_Group_a_eq probe_defs Group_CacheStats_def cache_stats_def)
  from Get_hit_frame [OF hit, of "(1, [])"] hit zero show ?thesis
    by (auto split: prod.splits)
qed

text \<open>
  C5. Take a new group and any run of \<^verbatim>\<open>Get\<close> calls, cut anywhere into a first part
  \<open>ks\<close> and a rest \<open>ks'\<close>. The snapshot that \<^verbatim>\<open>CacheStats\<close> returns after \<open>ks\<close> has
  hits at most gets, and each of gets, hits and evictions in it is at most what the snapshot
  after the whole run shows: the counters never decrease and are never reset. The counters
  are \<^verbatim>\<open>int64\<close> and are read as signed; the run is shorter than \<open>2 ^ 63\<close> calls, the
  number at which \<^verbatim>\<open>nget\<close> would wrap around.
\<close>

theorem counters_monotone:
  assumes room: "int (length ks + length ks') < 2 ^ 63"
  shows "case Group_Gets (fresh_Group nm cacheNum gt) ks u of
           (g1, u1) \<Rightarrow>
             (case Group_Gets g1 ks' u1 of
                (g2, u2) \<Rightarrow>
                  sint (Hits (Group_CacheStats g1)) \<le> sint (Gets (Group_CacheStats g1)) \<and>
                  sint (Gets (Group_CacheStats g1)) \<le> sint (Gets (Group_CacheStats g2)) \<and>
                  sint (Hits (Group_CacheStats g1)) \<le> sint (Hits (Group_CacheStats g2)) \<and>
                  sint (Evictions (Group_CacheStats g1)) \<le> sint (Evictions (Group_CacheStats g2)))"
proof -
  let ?g0 = "fresh_Group nm cacheNum gt"
  obtain g1 u1 where r1: "Group_Gets ?g0 ks u = (g1, u1)"
    by (cases "Group_Gets ?g0 ks u")
  obtain g2 u2 where r2: "Group_Gets g1 ks' u1 = (g2, u2)"
    by (cases "Group_Gets g1 ks' u1")
  have zero: "sint (nget (mainCache ?g0)) = 0"
    by (simp add: fresh_Group_def cache_init_def)
  have room0: "sint (nget (mainCache ?g0)) + int (length ks) < 2 ^ 63"
    using room zero by simp
  from Gets_counters [OF counters_ok_fresh room0, of u] r1
  have ok1: "counters_ok (mainCache g1)"
    and n1: "sint (nget (mainCache g1)) = int (length ks)"
    using zero by simp_all
  have room1: "sint (nget (mainCache g1)) + int (length ks') < 2 ^ 63"
    using room n1 by simp
  from Gets_counters [OF ok1 room1, of u1] r2
  have mono: "sint (nget (mainCache g2)) = sint (nget (mainCache g1)) + int (length ks')"
    "sint (nhit (mainCache g1)) \<le> sint (nhit (mainCache g2))"
    "sint (nevict (mainCache g1)) \<le> sint (nevict (mainCache g2))"
    by simp_all
  have le: "sint (nhit (mainCache g1)) \<le> sint (nget (mainCache g1))"
    using ok1 by (simp add: counters_ok_def)
  show ?thesis
    using r1 r2 mono le by (simp add: Group_CacheStats_def cache_stats_def)
qed

text \<open>C5 on the run \<^verbatim>\<open>a\<close>, \<^verbatim>\<open>b\<close> followed by \<^verbatim>\<open>a\<close>, \<^verbatim>\<open>c\<close>, capacity 2.\<close>

theorem counters_monotone_witness:
  "int (length [''a'', ''b''] + length [''a'', ''c'']) < 2 ^ 63 \<and>
   (case Group_Gets probe_Group [''a'', ''b''] (0, []) of
      (g1, u1) \<Rightarrow>
        (case Group_Gets g1 [''a'', ''c''] u1 of
           (g2, u2) \<Rightarrow>
             sint (Hits (Group_CacheStats g1)) \<le> sint (Gets (Group_CacheStats g1)) \<and>
             sint (Gets (Group_CacheStats g1)) \<le> sint (Gets (Group_CacheStats g2)) \<and>
             sint (Hits (Group_CacheStats g1)) \<le> sint (Hits (Group_CacheStats g2)) \<and>
             sint (Evictions (Group_CacheStats g1)) \<le> sint (Evictions (Group_CacheStats g2))))"
proof -
  have room: "int (length [''a'', ''b''] + length [''a'', ''c'']) < 2 ^ 63"
    by simp
  from counters_monotone [OF room, of "''g''" 2 probe_getter "(0, [])"] room show ?thesis
    unfolding probe_Group_def by blast
qed

text \<open>
  C6, as stated, fails: the hook does not find the group registered. With the hook that
  notes what it finds, creating the group \<^verbatim>\<open>a\<close> in an empty registry ends with the
  single note \<open>False\<close>: the hook ran once, and the name was not registered then.
\<close>

theorem hook_runs_registered_counterexample:
  "NewGroup ''a'' 2 absent_getter hooked_registry [] =
     Inr (fresh_Group ''a'' 2 absent_getter,
          hooked_registry\<lparr>groups := [''a'' \<mapsto> fresh_Group ''a'' 2 absent_getter]\<rparr>,
          [False]) \<and>
   \<not> (case NewGroup ''a'' 2 absent_getter hooked_registry [] of
        Inl p \<Rightarrow> False
      | Inr (g, r, seen) \<Rightarrow> seen = [True])"
  by (simp add: NewGroup_def Let_def hooked_registry_def seen_hook_def fresh_Group_def)

text \<open>
  C6, amended. Creating a group under an unused name allocates the new Group with its
  name, its getter and an initialised empty cache of the given capacity with all counters
  at 0; if a creation hook is installed it is invoked exactly once, with that new Group,
  before \<^verbatim>\<open>NewGroup\<close> returns, and it runs against the registry as it was before the
  call, in which the name is not registered; the group, as the hook leaves it, is registered
  under the name after the hook has returned.
\<close>

theorem hook_runs_before_registration:
  assumes unused: "groups r nm = None"
  shows "case NewGroup nm cacheNum gt r u of
           Inl p \<Rightarrow> False
         | Inr (g', r', u') \<Rightarrow>
             (g', u') =
               (case newGroupHook r of
                  None \<Rightarrow> (fresh_Group nm cacheNum gt, u)
                | Some fn \<Rightarrow> fn (groups r) (fresh_Group nm cacheNum gt) u) \<and>
             groups r nm = None \<and>
             r' = r\<lparr>groups := (groups r)(nm \<mapsto> g')\<rparr> \<and>
             GetGroup nm r' = Some g' \<and>
             name (fresh_Group nm cacheNum gt) = nm \<and>
             getter (fresh_Group nm cacheNum gt) = gt \<and>
             entries (lru (mainCache (fresh_Group nm cacheNum gt))) = [] \<and>
             MaxEntries (lru (mainCache (fresh_Group nm cacheNum gt))) = cacheNum \<and>
             OnEvicted (lru (mainCache (fresh_Group nm cacheNum gt))) = Some cache_OnEvicted \<and>
             Group_CacheStats (fresh_Group nm cacheNum gt) =
               \<lparr>Items = 0, Gets = 0, Hits = 0, Evictions = 0\<rparr>"
proof -
  let ?g = "fresh_Group nm cacheNum gt"
  obtain g' u' where hook:
    "(case newGroupHook r of None \<Rightarrow> (?g, u) | Some fn \<Rightarrow> fn (groups r) ?g u) = (g', u')"
    by (cases "case newGroupHook r of None \<Rightarrow> (?g, u) | Some fn \<Rightarrow> fn (groups r) ?g u")
  have run: "NewGroup nm cacheNum gt r u = Inr (g', r\<lparr>groups := (groups r)(nm \<mapsto> g')\<rparr>, u')"
    using unused hook by (simp add: NewGroup_unused)
  have new: "name ?g = nm" "getter ?g = gt" "entries (lru (mainCache ?g)) = []"
    "MaxEntries (lru (mainCache ?g)) = cacheNum"
    "OnEvicted (lru (mainCache ?g)) = Some cache_OnEvicted"
    "Group_CacheStats ?g = \<lparr>Items = 0, Gets = 0, Hits = 0, Evictions = 0\<rparr>"
    by (simp_all add: fresh_Group_def cache_init_def lru_New_def Group_CacheStats_def
        cache_stats_def cache_itemsLocked_def lru_Len_def)
  show ?thesis
    unfolding run using unused hook new by (simp add: GetGroup_def)
qed

text \<open>C6, amended, on the group \<^verbatim>\<open>a\<close> and the hook that notes what it finds.\<close>

theorem hook_runs_before_registration_witness:
  "groups hooked_registry ''a'' = None \<and>
   (case NewGroup ''a'' 2 absent_getter hooked_registry [] of
      Inl p \<Rightarrow> False
    | Inr (g', r', u') \<Rightarrow>
        (g', u') = seen_hook (groups hooked_registry) (fresh_Group ''a'' 2 absent_getter) [] \<and>
        u' = [False] \<and>
        GetGroup ''a'' r' = Some g')"
proof -
  have unused: "groups hooked_registry ''a'' = None"
    by (simp add: hooked_registry_def)
  have hook: "newGroupHook hooked_registry = Some seen_hook"
    by (simp add: hooked_registry_def)
  have seen: "seen_hook (groups hooked_registry) g [] = (g, [False])"
    if "name g = ''a''" for g :: "bool list Group"
    using that by (simp add: seen_hook_def hooked_registry_def)
  have nm: "name (fresh_Group ''a'' 2 absent_getter :: bool list Group) = ''a''"
    by (simp add: fresh_Group_def)
  from hook_runs_before_registration [OF unused, of 2 absent_getter "[]"] unused hook seen [OF nm]
  show ?thesis
    by (auto split: sum.splits prod.splits)
qed

text \<open>
  C7. \<^verbatim>\<open>NewGroup\<close> under a registered name panics, and so does
  \<^verbatim>\<open>RegisterNewGroupHook\<close> when a hook is installed: neither returns a value. Two
  groups created under distinct unused names are both created, \<^verbatim>\<open>GetGroup\<close> finds
  each of them under its own name afterwards, and creating either name again panics.
\<close>

theorem duplicates_panic:
  "(groups r nm \<noteq> None \<longrightarrow>
      NewGroup nm cacheNum gt r u = Inl (Panic (''duplicate registration of group '' @ nm))) \<and>
   (newGroupHook r \<noteq> None \<longrightarrow>
      RegisterNewGroupHook fn r = Inl (Panic ''RegisterNewGroupHook called more than once'')) \<and>
   (groups r nm1 = None \<and> groups r nm2 = None \<and> nm1 \<noteq> nm2 \<longrightarrow>
      (case NewGroup nm1 n1 gt1 r u of
         Inl p \<Rightarrow> False
       | Inr (g1, r1, u1) \<Rightarrow>
           (case NewGroup nm2 n2 gt2 r1 u1 of
              Inl p \<Rightarrow> False
            | Inr (g2, r2, u2) \<Rightarrow>
                GetGroup nm1 r2 = Some g1 \<and> GetGroup nm2 r2 = Some g2 \<and>
                NewGroup nm1 n3 gt3 r2 u2 =
                  Inl (Panic (''duplicate registration of group '' @ nm1)) \<and>
                NewGroup nm2 n3 gt3 r2 u2 =
                  Inl (Panic (''duplicate registration of group '' @ nm2)))))"
proof (intro conjI impI)
  assume "groups r nm \<noteq> None"
  then show "NewGroup nm cacheNum gt r u = Inl (Panic (''duplicate registration of group '' @ nm))"
    by (rule NewGroup_duplicate)
next
  assume "newGroupHook r \<noteq> None"
  then show "RegisterNewGroupHook fn r = Inl (Panic ''RegisterNewGroupHook called more than once'')"
    by (simp add: RegisterNewGroupHook_def)
next
  assume fresh: "groups r nm1 = None \<and> groups r nm2 = None \<and> nm1 \<noteq> nm2"
  obtain g1 u1 where run1:
    "NewGroup nm1 n1 gt1 r u = Inr (g1, r\<lparr>groups := (groups r)(nm1 \<mapsto> g1)\<rparr>, u1)"
    using fresh by (auto intro: NewGroup_succeeds)
  let ?r1 = "r\<lparr>groups := (groups r)(nm1 \<mapsto> g1)\<rparr>"
  have unused2: "groups ?r1 nm2 = None" using fresh by auto
  obtain g2 u2 where run2:
    "NewGroup nm2 n2 gt2 ?r1 u1 = Inr (g2, ?r1\<lparr>groups := (groups ?r1)(nm2 \<mapsto> g2)\<rparr>, u2)"
    using unused2 by (rule NewGroup_succeeds)
  let ?r2 = "?r1\<lparr>groups := (groups ?r1)(nm2 \<mapsto> g2)\<rparr>"
  have look: "GetGroup nm1 ?r2 = Some g1" "GetGroup nm2 ?r2 = Some g2"
    using fresh by (auto simp: GetGroup_def)
  have dup: "NewGroup nm1 n3 gt3 ?r2 u2 = Inl (Panic (''duplicate registration of group '' @ nm1))"
    "NewGroup nm2 n3 gt3 ?r2 u2 = Inl (Panic (''duplicate registration of group '' @ nm2))"
    using fresh by (auto simp: NewGroup_duplicate)
  show "case NewGroup nm1 n1 gt1 r u of
         Inl p \<Rightarrow> False
       | Inr (g1, r1, u1) \<Rightarrow>
           (case NewGroup nm2 n2 gt2 r1 u1 of
              Inl p \<Rightarrow> False
            | Inr (g2, r2, u2) \<Rightarrow>
                GetGroup nm1 r2 = Some g1 \<and> GetGroup nm2 r2 = Some g2 \<and>
                NewGroup nm1 n3 gt3 r2 u2 =
                  Inl (Panic (''duplicate registration of group '' @ nm1)) \<and>
                NewGroup nm2 n3 gt3 r2 u2 =
                  Inl (Panic (''duplicate registration of group '' @ nm2)))"
    unfolding run1 using run2 look dup by simp
qed

text \<open>C7 on a registry that holds a hook and the group \<^verbatim>\<open>z\<close>.\<close>

theorem duplicates_panic_witness:
  "groups busy_registry ''z'' \<noteq> None \<and> newGroupHook busy_registry \<noteq> None \<and>
   groups busy_registry ''a'' = None \<and> groups busy_registry ''b'' = None \<and> ''a'' \<noteq> ''b'' \<and>
   NewGroup ''z'' 1 absent_getter busy_registry [] =
     Inl (Panic ''duplicate registration of group z'') \<and>
   RegisterNewGroupHook (Some seen_hook) busy_registry =
     Inl (Panic ''RegisterNewGroupHook called more than once'') \<and>
   (case NewGroup ''a'' 1 absent_getter busy_registry [] of
      Inl p \<Rightarrow> False
    | Inr (g1, r1, u1) \<Rightarrow>
        (case NewGroup ''b'' 2 absent_getter r1 u1 of
           Inl p \<Rightarrow> False
         | Inr (g2, r2, u2) \<Rightarrow>
             GetGroup ''a'' r2 = Some g1 \<and> GetGroup ''b'' r2 = Some g2))"
proof -
  have h: "groups busy_registry ''z'' \<noteq> None" "newGroupHook busy_registry \<noteq> None"
    "groups busy_registry ''a'' = None" "groups busy_registry ''b'' = None" "''a'' \<noteq> ''b''"
    by (simp_all add: busy_registry_def)
  from duplicates_panic [of busy_registry "''z''" 1 absent_getter "[]" "Some seen_hook" "''a''" "''b''"
      1 absent_getter 2 absent_getter 1 absent_getter] h
  show ?thesis
    by (auto split: sum.splits prod.splits)
qed

text \<open>
  C8. Let a \<^verbatim>\<open>Get\<close> miss, load \<open>val\<close>, and insert it into a full cache, so that the
  entry \<open>(ko, old)\<close> is evicted, and let \<open>old\<close>'s \<^verbatim>\<open>Dispose\<close> fail with the error
  \<open>e\<close>. The hook does exactly what it does for a Value that disposes in the same way and
  reports success; \<^verbatim>\<open>add\<close> completes the eviction and counts it, without a panic;
  \<^verbatim>\<open>Get\<close> returns \<open>val\<close> with a nil error, and the evictions counter is up by one.
  The error \<open>e\<close> appears in no result.
\<close>

theorem Dispose_failure_swallowed:
  assumes hooked: "OnEvicted (lru (mainCache g)) = Some cache_OnEvicted"
    and absent: "map_of (entries (lru (mainCache g))) k = None"
    and full: "MaxEntries (lru (mainCache g)) \<le> int (length (entries (lru (mainCache g))))"
    and victim: "last ((k, val) # entries (lru (mainCache g))) = (ko, Some old)"
    and loads: "getter g k u = ((val, None), u1)"
    and fails: "Dispose old u1 = (Some e, u2)"
  shows "cache_OnEvicted ko (Some old) (n, u1) = (None, (n + 1, u2)) \<and>
         cache_OnEvicted ko (Some old) (n, u1) =
           cache_OnEvicted ko (Some (old\<lparr>Dispose := \<lambda>w. (None, snd (Dispose old w))\<rparr>)) (n, u1) \<and>
         (case cache_add (mainCache g) k val u1 of
            (p, c', u') \<Rightarrow>
              p = None \<and> nevict c' = nevict (mainCache g) + 1 \<and> u' = u2 \<and>
              entries (lru c') = butlast ((k, val) # entries (lru (mainCache g)))) \<and>
         (case Group_Get g k u of
            (res, g', u') \<Rightarrow>
              res = Inr (val, None) \<and> u' = u2 \<and>
              Evictions (Group_CacheStats g') = Evictions (Group_CacheStats g) + 1)"
proof (intro conjI)
  show "cache_OnEvicted ko (Some old) (n, u1) = (None, (n + 1, u2))"
    using fails by (simp add: cache_OnEvicted_eq)
  show "cache_OnEvicted ko (Some old) (n, u1) =
      cache_OnEvicted ko (Some (old\<lparr>Dispose := \<lambda>w. (None, snd (Dispose old w))\<rparr>)) (n, u1)"
    by (simp add: cache_OnEvicted_eq)
  show "case cache_add (mainCache g) k val u1 of
            (p, c', u') \<Rightarrow>
              p = None \<and> nevict c' = nevict (mainCache g) + 1 \<and> u' = u2 \<and>
              entries (lru c') = butlast ((k, val) # entries (lru (mainCache g)))"
    unfolding cache_add_new_full [OF absent full hooked victim]
    using fails by simp
  let ?c1 = "(mainCache g)\<lparr>nget := nget (mainCache g) + 1\<rparr>"
  have absent1: "map_of (entries (lru ?c1)) k = None" using absent by simp
  have full1: "MaxEntries (lru ?c1) \<le> int (length (entries (lru ?c1)))" using full by simp
  have hooked1: "OnEvicted (lru ?c1) = Some cache_OnEvicted" using hooked by simp
  have victim1: "last ((k, val) # entries (lru ?c1)) = (ko, Some old)" using victim by simp
  show "case Group_Get g k u of
            (res, g', u') \<Rightarrow>
              res = Inr (val, None) \<and> u' = u2 \<and>
              Evictions (Group_CacheStats g') = Evictions (Group_CacheStats g) + 1"
    unfolding Group_Get_miss_loaded [OF absent loads
        cache_add_new_full [OF absent1 full1 hooked1 victim1]]
    using fails by (simp add: Group_CacheStats_def cache_stats_def)
qed

text \<open>
  C8 on a full group of capacity 1 whose resident Value fails to dispose: \<^verbatim>\<open>Get("b")\<close>
  evicts it, returns the new Value and no error, and one eviction is counted.
\<close>

theorem Dispose_failure_swallowed_witness:
  "OnEvicted (lru (mainCache busy_Group_a)) = Some cache_OnEvicted \<and>
   map_of (entries (lru (mainCache busy_Group_a))) ''b'' = None \<and>
   MaxEntries (lru (mainCache busy_Group_a)) \<le> int (length (entries (lru (mainCache busy_Group_a)))) \<and>
   last ((''b'', Some (probe_Value 98 (Some (Error ''dispose failed'')))) #
         entries (lru (mainCache busy_Group_a))) =
     (''a'', Some (probe_Value 97 (Some (Error ''dispose failed'')))) \<and>
   getter busy_Group_a ''b'' (1, []) =
     ((Some (probe_Value 98 (Some (Error ''dispose failed''))), None), (2, [])) \<and>
   Dispose (probe_Value 97 (Some (Error ''dispose failed''))) (2, []) =
     (Some (Error ''dispose failed''), (2, [97])) \<and>
   fst (Group_Get busy_Group_a ''b'' (1, [])) =
     Inr (Some (probe_Value 98 (Some (Error ''dispose failed''))), None) \<and>
   snd (snd (Group_Get busy_Group_a ''b'' (1, []))) = (2, [97]) \<and>
   Evictions (Group_CacheStats (fst (snd (Group_Get busy_Group_a ''b'' (1, []))))) = 1"
proof -
  let ?v1 = "probe_Value 97 (Some (Error ''dispose failed''))"
  let ?v2 = "probe_Value 98 (Some (Error ''dispose failed''))"
  have hooked: "OnEvicted (lru (mainCache busy_Group_a)) = Some cache_OnEvicted"
    by (simp add: busy_Group_a_eq busy_Group_def fresh_Group_def cache_init_def)
  have absent: "map_of (entries (lru (mainCache busy_Group_a))) ''b'' = None"
    by (simp add: busy_Group_a_eq)
  have full: "MaxEntries (lru (mainCache busy_Group_a))
      \<le> int (length (entries (lru (mainCache busy_Group_a))))"
    by (simp add: busy_Group_a_eq busy_Group_def fresh_Group_def cache_init_def lru_New_def)
  have victim: "last ((''b'', Some ?v2) # entries (lru (mainCache busy_Group_a))) = (''a'', Some ?v1)"
    by (simp add: busy_Group_a_eq)
  have loads: "getter busy_Group_a ''b'' (1, []) = ((Some ?v2, None), (2, []))"
    by (simp add: busy_Group_a_eq busy_Group_def fresh_Group_def busy_getter_def)
  have fails: "Dispose ?v1 (2, []) = (Some (Error ''dispose failed''), (2, [97]))"
    by (simp add: probe_Value_def)
  have zero: "Evictions (Group_CacheStats busy_Group_a) = 0"
    by (simp add: busy_Group_a_eq busy_Group_def fresh_Group_def cache_init_def
        Group_CacheStats_def cache_stats_def)
  from Dispose_failure_swallowed [OF hooked absent full victim loads fails, of 0]
    hooked absent full victim loads fails zero
  show ?thesis
    by (auto split: prod.splits)
qed

text \<open>
  C9. After any run of \<^verbatim>\<open>Get\<close> calls on a new group, made one after the other, the
  atomic \<^verbatim>\<open>Stats.Gets\<close> equals the gets that \<^verbatim>\<open>CacheStats\<close> reports and
  \<^verbatim>\<open>Stats.CacheHits\<close> equals the hits it reports; every call has been counted on both
  paths, so both gets counters hold the number of calls.
\<close>

theorem Stats_parity:
  "case Group_Gets (fresh_Group nm cacheNum gt) ks u of
     (g', u') \<Rightarrow>
       AtomicInt_Get (Stats.Gets (Stats g')) = Gets (Group_CacheStats g') \<and>
       AtomicInt_Get (CacheHits (Stats g')) = Hits (Group_CacheStats g') \<and>
       Gets (Group_CacheStats g') = word_of_nat (length ks)"
proof -
  let ?g0 = "fresh_Group nm cacheNum gt"
  have start: "Stats.Gets (Stats ?g0) = nget (mainCache ?g0)"
    "CacheHits (Stats ?g0) = nhit (mainCache ?g0)"
    by (simp_all add: fresh_Group_def cache_init_def)
  have zero: "nget (mainCache ?g0) = 0"
    by (simp add: fresh_Group_def cache_init_def)
  obtain g' u' where run: "Group_Gets ?g0 ks u = (g', u')"
    by (cases "Group_Gets ?g0 ks u")
  from Gets_parity [OF start, of ks u] Gets_nget [of ?g0 ks u] zero run show ?thesis
    by (simp add: AtomicInt_Get_def Group_CacheStats_def cache_stats_def)
qed

end
